theory Spec2Isabelle
  imports Main
begin

section \<open>The host: completions and the timer queue\<close>

text \<open>
  The script \<^verbatim>\<open>professional-script.js\<close> runs in a single-threaded JavaScript host.
  A call either returns or throws; a thrown value is an \<open>exn\<close>. State that the
  source mutates (closure variables, the host's timer queue, the console) is passed
  explicitly and returned next to the completion, so that what was mutated before a
  throw is kept, as in JavaScript.
\<close>

datatype exn = ReferenceError string | SyntaxError string | Thrown string

datatype 'v completion = Normal 'v | Throw exn

text \<open>
  The host's timer queue. Time is in milliseconds. A pending timer is its handle, the
  time it is due and its callback; \<open>timing\<close> says whether the globals
  \<^verbatim>\<open>setTimeout\<close>/\<^verbatim>\<open>clearTimeout\<close> exist at all (reading an undeclared global throws a
  ReferenceError). \<open>uncaught\<close> is what the host's event loop received from callbacks
  and event handlers that threw. A timer fires when it is due, and timers due at the
  same time fire in the order they were armed.
\<close>

record 'cb host =
  now :: nat
  next_id :: nat
  timers :: "(nat \<times> nat \<times> 'cb) list"
  timing :: bool
  uncaught :: "(nat \<times> exn) list"

text \<open>
  The host keeps the delay of a timer in a signed 32-bit integer: the number given is
  reduced modulo \<open>2^32\<close>, and what then reads as negative (from \<open>2^31\<close> on) is taken
  as 0. A delay below \<open>2^31\<close> is kept as it is.
\<close>

definition timer_delay :: "nat \<Rightarrow> nat" where
  "timer_delay delay = (let m = delay mod 2 ^ 32 in if m < 2 ^ 31 then m else 0)"

definition setTimeout ::
  "'cb \<Rightarrow> nat \<Rightarrow> ('cb, 'm) host_scheme \<Rightarrow> nat completion \<times> ('cb, 'm) host_scheme" where
  "setTimeout cb delay h =
     (if timing h
      then (Normal (next_id h),
            h\<lparr>next_id := Suc (next_id h),
              timers := timers h @ [(next_id h, now h + timer_delay delay, cb)]\<rparr>)
      else (Throw (ReferenceError ''setTimeout''), h))"

text \<open>\<^verbatim>\<open>clearTimeout(undefined)\<close> and clearing a handle that is not pending do nothing.\<close>

definition clearTimeout ::
  "nat option \<Rightarrow> ('cb, 'm) host_scheme \<Rightarrow> unit completion \<times> ('cb, 'm) host_scheme" where
  "clearTimeout handle h =
     (if timing h
      then (Normal (), h\<lparr>timers := filter (\<lambda>(i, d, cb). Some i \<noteq> handle) (timers h)\<rparr>)
      else (Throw (ReferenceError ''clearTimeout''), h))"

fun earliest :: "(nat \<times> nat \<times> 'cb) list \<Rightarrow> (nat \<times> nat \<times> 'cb) option" where
  "earliest [] = None"
| "earliest (x # xs) =
     (case earliest xs of
        None \<Rightarrow> Some x
      | Some y \<Rightarrow> if fst (snd y) < fst (snd x) then Some y else Some x)"

definition next_due :: "nat \<Rightarrow> (nat \<times> nat \<times> 'cb) list \<Rightarrow> (nat \<times> nat \<times> 'cb) option" where
  "next_due t ts =
     (case earliest ts of
        None \<Rightarrow> None
      | Some (i, d, cb) \<Rightarrow> if d \<le> t then Some (i, d, cb) else None)"

definition take_timer :: "nat \<Rightarrow> nat \<Rightarrow> ('cb, 'm) host_scheme \<Rightarrow> ('cb, 'm) host_scheme" where
  "take_timer i d h =
     h\<lparr>now := max (now h) d, timers := filter (\<lambda>(j, d', cb). j \<noteq> i) (timers h)\<rparr>"

definition report :: "'v completion \<times> ('cb, 'm) host_scheme \<Rightarrow> ('cb, 'm) host_scheme" where
  "report r =
     (case r of
        (Normal v, h) \<Rightarrow> h
      | (Throw e, h) \<Rightarrow> h\<lparr>uncaught := uncaught h @ [(now h, e)]\<rparr>)"

section \<open>debounce\<close>

text \<open>
  \<^verbatim>\<open>
  const debounce = (func, wait) => {
      let timeout;
      return function executedFunction(...args) {
          const later = () => {
              clearTimeout(timeout);
              func(...args);
          };
          clearTimeout(timeout);
          timeout = setTimeout(later, wait);
      };
  };
  \<close>
  The closure variable \<open>timeout\<close> starts undefined (\<open>None\<close>). The wrapped function
  \<open>func\<close> is opaque: all that is known of a call is whether it throws, and \<open>invoked\<close>
  records each call of it with the time and the arguments. The callback of a timer is
  the closure \<open>later\<close>, which is determined by the arguments it captured. A call of
  the debounced function that \<open>func\<close> itself makes is a call like any other, at the
  time \<open>later\<close> runs: \<open>later\<close> does nothing after \<open>func\<close>, so the state is the one
  of a call that arrives when the timer has just fired.
\<close>

record 'a debounce_state = "'a host" +
  timeout :: "nat option"
  invoked :: "(nat \<times> 'a) list"

definition debounce_init :: "bool \<Rightarrow> 'a debounce_state" where
  "debounce_init tm =
     \<lparr>now = 0, next_id = 1, timers = [], timing = tm, uncaught = [],
      timeout = None, invoked = []\<rparr>"

definition later ::
  "('a \<Rightarrow> exn option) \<Rightarrow> 'a \<Rightarrow> 'a debounce_state \<Rightarrow> unit completion \<times> 'a debounce_state" where
  "later func args s =
     (case clearTimeout (timeout s) s of
        (Throw e, s1) \<Rightarrow> (Throw e, s1)
      | (Normal u, s1) \<Rightarrow>
          (let s2 = s1\<lparr>invoked := invoked s1 @ [(now s1, args)]\<rparr>
           in case func args of
                Some e \<Rightarrow> (Throw e, s2)
              | None \<Rightarrow> (Normal (), s2)))"

definition executedFunction ::
  "nat \<Rightarrow> 'a \<Rightarrow> 'a debounce_state \<Rightarrow> unit completion \<times> 'a debounce_state" where
  "executedFunction wait args s =
     (case clearTimeout (timeout s) s of
        (Throw e, s1) \<Rightarrow> (Throw e, s1)
      | (Normal u, s1) \<Rightarrow>
          (case setTimeout args wait s1 of
             (Throw e, s2) \<Rightarrow> (Throw e, s2)
           | (Normal i, s2) \<Rightarrow> (Normal (), s2\<lparr>timeout := Some i\<rparr>)))"

text \<open>The host runs the timer \<open>(i, d, args)\<close>: it leaves the queue, then \<open>later\<close> runs.\<close>

definition debounce_fire ::
  "('a \<Rightarrow> exn option) \<Rightarrow> nat \<times> nat \<times> 'a \<Rightarrow> 'a debounce_state \<Rightarrow> 'a debounce_state" where
  "debounce_fire func tm s =
     (case tm of (i, d, args) \<Rightarrow> report (later func args (take_timer i d s)))"

lemma earliest_mem: "earliest ts = Some x \<Longrightarrow> x \<in> set ts"
  by (induction ts arbitrary: x) (auto split: option.splits if_splits)

lemma next_due_mem: "next_due t ts = Some x \<Longrightarrow> x \<in> set ts"
  by (auto simp: next_due_def split: option.splits if_splits dest: earliest_mem)

lemma length_filter_mem:
  "(i, d, cb) \<in> set ts \<Longrightarrow> length (filter (\<lambda>(j, d', cb'). j \<noteq> i) ts) < length ts"
  by (induction ts) (auto simp: less_Suc_eq_le)

lemma timers_debounce_fire:
  "(i, d, args) \<in> set (timers s) \<Longrightarrow>
   length (timers (debounce_fire func (i, d, args) s)) < length (timers s)"
proof -
  assume m: "(i, d, args) \<in> set (timers s)"
  let ?s1 = "take_timer i d s"
  have a: "length (timers ?s1) < length (timers s)"
    using length_filter_mem [OF m] by (simp add: take_timer_def)
  have b: "length (timers (report (later func args ?s1))) \<le> length (timers ?s1)"
    by (auto simp: later_def clearTimeout_def report_def Let_def split: option.splits)
  from a b show ?thesis by (simp add: debounce_fire_def)
qed

text \<open>Time passes until \<open>t\<close>: every timer due by then fires, the earliest first.\<close>

function debounce_advance ::
  "('a \<Rightarrow> exn option) \<Rightarrow> nat \<Rightarrow> 'a debounce_state \<Rightarrow> 'a debounce_state" where
  "debounce_advance func t s =
     (case next_due t (timers s) of
        None \<Rightarrow> s\<lparr>now := max (now s) t\<rparr>
      | Some tm \<Rightarrow> debounce_advance func t (debounce_fire func tm s))"
  by pat_completeness auto
termination
proof (relation "measure (\<lambda>(func, t, s). length (timers s))")
  show "wf (measure (\<lambda>(func :: 'a \<Rightarrow> exn option, t :: nat, s :: 'a debounce_state).
              length (timers s)))"
    by simp
next
  fix func :: "'a \<Rightarrow> exn option" and t :: nat and s :: "'a debounce_state" and tm
  assume "next_due t (timers s) = Some tm"
  then have m: "tm \<in> set (timers s)" by (rule next_due_mem)
  obtain i d args where tm: "tm = (i, d, args)" by (cases tm)
  have "length (timers (debounce_fire func tm s)) < length (timers s)"
    using m unfolding tm by (rule timers_debounce_fire)
  then show "((func, t, debounce_fire func tm s), (func, t, s))
               \<in> measure (\<lambda>(func, t, s). length (timers s))"
    by simp
qed

declare debounce_advance.simps [simp del]

text \<open>
  A call of the debounced function at time \<open>fst c\<close> with arguments \<open>snd c\<close>, and a
  run of such calls. A timer due by the time of a call has fired before the call.
\<close>

definition debounce_call ::
  "('a \<Rightarrow> exn option) \<Rightarrow> nat \<Rightarrow> nat \<times> 'a \<Rightarrow> 'a debounce_state \<Rightarrow> 'a debounce_state" where
  "debounce_call func wait c s =
     report (executedFunction wait (snd c) (debounce_advance func (fst c) s))"

fun debounce_run ::
  "('a \<Rightarrow> exn option) \<Rightarrow> nat \<Rightarrow> (nat \<times> 'a) list \<Rightarrow> 'a debounce_state \<Rightarrow> 'a debounce_state" where
  "debounce_run func wait [] s = s"
| "debounce_run func wait (c # cs) s = debounce_run func wait cs (debounce_call func wait c s)"

text \<open>Calls less than \<open>wait\<close> apart (a burst), and calls more than \<open>wait\<close> apart.\<close>

fun burst :: "nat \<Rightarrow> (nat \<times> 'a) list \<Rightarrow> bool" where
  "burst wait [] = True"
| "burst wait [c] = True"
| "burst wait (c # c' # cs) =
     (fst c \<le> fst c' \<and> fst c' < fst c + wait \<and> burst wait (c' # cs))"

fun sparse :: "nat \<Rightarrow> (nat \<times> 'a) list \<Rightarrow> bool" where
  "sparse wait [] = True"
| "sparse wait [c] = True"
| "sparse wait (c # c' # cs) = (fst c + wait < fst c' \<and> sparse wait (c' # cs))"

section \<open>throttle\<close>

text \<open>
  \<^verbatim>\<open>
  const throttle = (func, limit) => {
      let inThrottle;
      return function() {
          const args = arguments;
          const context = this;
          if (!inThrottle) {
              func.apply(context, args);
              inThrottle = true;
              setTimeout(() => inThrottle = false, limit);
          }
      };
  };
  \<close>
  The closure variable \<open>inThrottle\<close> starts undefined, which \<^verbatim>\<open>!inThrottle\<close> reads
  as false. \<open>applied\<close> records each call of \<open>func\<close> with the time, the receiver and
  the arguments. The only timer callback is the arrow function that resets the flag,
  so a timer carries no data.

  \<open>func\<close> runs before the flag is set, and while it runs it may call the throttled
  function again. So \<open>func\<close> is a function on the state: it returns or throws, and
  hands back the state it left, which is the state it was given unless it called the
  throttled function (or the host's timers) itself.
\<close>

record ('c, 'a) throttle_state = "unit host" +
  inThrottle :: bool
  applied :: "(nat \<times> 'c \<times> 'a) list"

definition throttle_init :: "bool \<Rightarrow> ('c, 'a) throttle_state" where
  "throttle_init tm =
     \<lparr>now = 0, next_id = 1, timers = [], timing = tm, uncaught = [],
      inThrottle = False, applied = []\<rparr>"

definition throttled ::
  "('c \<Rightarrow> 'a \<Rightarrow> ('c, 'a) throttle_state \<Rightarrow> unit completion \<times> ('c, 'a) throttle_state) \<Rightarrow>
   nat \<Rightarrow> 'c \<Rightarrow> 'a \<Rightarrow> ('c, 'a) throttle_state \<Rightarrow>
   unit completion \<times> ('c, 'a) throttle_state" where
  "throttled func limit context args s =
     (if \<not> inThrottle s
      then (case func context args (s\<lparr>applied := applied s @ [(now s, context, args)]\<rparr>) of
              (Throw e, s1) \<Rightarrow> (Throw e, s1)
            | (Normal u, s1) \<Rightarrow>
                (case setTimeout () limit (s1\<lparr>inThrottle := True\<rparr>) of
                   (Throw e, s3) \<Rightarrow> (Throw e, s3)
                 | (Normal i, s3) \<Rightarrow> (Normal (), s3)))
      else (Normal (), s))"

definition throttle_fire ::
  "nat \<times> nat \<times> unit \<Rightarrow> ('c, 'a) throttle_state \<Rightarrow> ('c, 'a) throttle_state" where
  "throttle_fire tm s = (case tm of (i, d, u) \<Rightarrow> (take_timer i d s)\<lparr>inThrottle := False\<rparr>)"

lemma timers_throttle_fire:
  "tm \<in> set (timers s) \<Longrightarrow> length (timers (throttle_fire tm s)) < length (timers s)"
proof -
  assume m: "tm \<in> set (timers s)"
  obtain i d u where tm: "tm = (i, d, u)" by (cases tm)
  show ?thesis
    using length_filter_mem [OF m [unfolded tm]]
    by (simp add: tm throttle_fire_def take_timer_def)
qed

text \<open>Time passes until \<open>t\<close>: every timer due by then fires, the earliest first.\<close>

function throttle_advance :: "nat \<Rightarrow> ('c, 'a) throttle_state \<Rightarrow> ('c, 'a) throttle_state" where
  "throttle_advance t s =
     (case next_due t (timers s) of
        None \<Rightarrow> s\<lparr>now := max (now s) t\<rparr>
      | Some tm \<Rightarrow> throttle_advance t (throttle_fire tm s))"
  by pat_completeness auto
termination
  by (relation "measure (\<lambda>(t, s). length (timers s))")
    (simp_all add: next_due_mem timers_throttle_fire)

declare throttle_advance.simps [simp del]

text \<open>
  A call arrives at time \<open>t\<close>. The timers due before \<open>t\<close> have fired. When a timer is
  due at \<open>t\<close> itself, the host runs either the timer or the call first:
  \<open>timers_first\<close> says which. A timer that the call overtakes stays pending.
\<close>

definition throttle_arrive ::
  "bool \<Rightarrow> nat \<Rightarrow> ('c, 'a) throttle_state \<Rightarrow> ('c, 'a) throttle_state" where
  "throttle_arrive timers_first t s =
     (if timers_first then throttle_advance t s
      else (let s1 = (case t of 0 \<Rightarrow> s | Suc t' \<Rightarrow> throttle_advance t' s)
            in s1\<lparr>now := max (now s1) t\<rparr>))"

text \<open>
  An event \<open>(timers_first, t, context, args)\<close> is a call at time \<open>t\<close> with its receiver
  and arguments, and the host's choice for a timer due at \<open>t\<close>; a run is a list of
  events.
\<close>

definition throttle_call ::
  "('c \<Rightarrow> 'a \<Rightarrow> ('c, 'a) throttle_state \<Rightarrow> unit completion \<times> ('c, 'a) throttle_state) \<Rightarrow>
   nat \<Rightarrow> bool \<times> nat \<times> 'c \<times> 'a \<Rightarrow> ('c, 'a) throttle_state \<Rightarrow> ('c, 'a) throttle_state" where
  "throttle_call func limit ev s =
     (case ev of (timers_first, t, context, args) \<Rightarrow>
        report (throttled func limit context args (throttle_arrive timers_first t s)))"

fun throttle_run ::
  "('c \<Rightarrow> 'a \<Rightarrow> ('c, 'a) throttle_state \<Rightarrow> unit completion \<times> ('c, 'a) throttle_state) \<Rightarrow>
   nat \<Rightarrow> (bool \<times> nat \<times> 'c \<times> 'a) list \<Rightarrow> ('c, 'a) throttle_state \<Rightarrow>
   ('c, 'a) throttle_state" where
  "throttle_run func limit [] s = s"
| "throttle_run func limit (ev # evs) s =
     throttle_run func limit evs (throttle_call func limit ev s)"


section \<open>safeQuerySelector and safeQuerySelectorAll\<close>

text \<open>
  \<^verbatim>\<open>
  const safeQuerySelector = (selector) => {
      try {
          return document.querySelector(selector);
      } catch (error) {
          console.warn(`Error selecting element: ${selector}`, error);
          return null;
      }
  };
  \<close>
  and the same with \<^verbatim>\<open>querySelectorAll\<close>, the message \<^verbatim>\<open>Error selecting elements:\<close> and
  \<^verbatim>\<open>[]\<close>. The document's query is the host's: a parameter that returns or throws.
  An element is known by its identity, a number; \<^verbatim>\<open>null\<close> is \<open>None\<close>; a collection
  of elements is a list. The console is the list of what was written to it.
\<close>

datatype console_entry = Warn string "exn option"

definition console_warn ::
  "string \<Rightarrow> exn option \<Rightarrow> console_entry list \<Rightarrow> unit completion \<times> console_entry list" where
  "console_warn message detail con = (Normal (), con @ [Warn message detail])"

text \<open>
  \<^verbatim>\<open>try { body } catch (error) { handler }\<close>: what the body throws goes to the handler,
  with the state the body reached; what the handler throws is thrown.
\<close>

definition try_catch ::
  "('s \<Rightarrow> 'v completion \<times> 's) \<Rightarrow> (exn \<Rightarrow> 's \<Rightarrow> 'v completion \<times> 's) \<Rightarrow> 's \<Rightarrow>
   'v completion \<times> 's" where
  "try_catch body handler s =
     (case body s of
        (Normal v, s1) \<Rightarrow> (Normal v, s1)
      | (Throw error, s1) \<Rightarrow> handler error s1)"

definition safeQuerySelector ::
  "(string \<Rightarrow> nat option completion) \<Rightarrow> string \<Rightarrow> console_entry list \<Rightarrow>
   nat option completion \<times> console_entry list" where
  "safeQuerySelector querySelector selector =
     try_catch (\<lambda>con. (querySelector selector, con))
       (\<lambda>error con.
          case console_warn (''Error selecting element: '' @ selector) (Some error) con of
            (Normal u, con1) \<Rightarrow> (Normal None, con1)
          | (Throw e, con1) \<Rightarrow> (Throw e, con1))"

definition safeQuerySelectorAll ::
  "(string \<Rightarrow> nat list completion) \<Rightarrow> string \<Rightarrow> console_entry list \<Rightarrow>
   nat list completion \<times> console_entry list" where
  "safeQuerySelectorAll querySelectorAll selector =
     try_catch (\<lambda>con. (querySelectorAll selector, con))
       (\<lambda>error con.
          case console_warn (''Error selecting elements: '' @ selector) (Some error) con of
            (Normal u, con1) \<Rightarrow> (Normal [], con1)
          | (Throw e, con1) \<Rightarrow> (Throw e, con1))"

section \<open>initScrollAnimations: the reveal-once observer\<close>

text \<open>
  \<^verbatim>\<open>
  const initScrollAnimations = () => {
      if (!('IntersectionObserver' in window)) {
          console.warn('Intersection Observer not supported');
          return;
      }
      const observerOptions = { threshold: 0.1, rootMargin: "0px 0px -50px 0px" };
      const observer = new IntersectionObserver((entries) => {
          entries.forEach(entry => {
              if (entry.isIntersecting) {
                  entry.target.style.opacity = "1";
                  entry.target.style.transform = "translateY(0)";
                  entry.target.classList.add("animated");
                  observer.unobserve(entry.target);
              }
          });
      }, observerOptions);
      const animatedElements = safeQuerySelectorAll(".skill-card, ...");
      animatedElements.forEach(el => {
          el.style.opacity = "0";
          el.style.transform = "translateY(30px)";
          el.style.transition = "opacity 0.6s ease, transform 0.6s ease";
          observer.observe(el);
      });
  };
  \<close>
  The page holds what the function touches: the style of each element, the observer
  (absent until one is constructed) with the targets it watches, and the console.
  \<open>revealed\<close> records each run of the three reveal statements with its target, and
  \<open>errors\<close> what the host received from a notification callback that threw.
\<close>

record element =
  opacity :: string
  transform :: string
  transition :: string
  classList :: "string list"

record entry =
  target :: nat
  isIntersecting :: bool

record page =
  styles :: "nat \<Rightarrow> element"
  observer :: "nat list option"
  console :: "console_entry list"
  revealed :: "nat list"
  errors :: "exn list"

definition page_init :: "(nat \<Rightarrow> element) \<Rightarrow> page" where
  "page_init st = \<lparr>styles = st, observer = None, console = [], revealed = [], errors = []\<rparr>"

definition watched :: "page \<Rightarrow> nat set" where
  "watched p = (case observer p of None \<Rightarrow> {} | Some ws \<Rightarrow> set ws)"

definition observe :: "nat \<Rightarrow> page \<Rightarrow> page" where
  "observe el p =
     p\<lparr>observer := map_option (\<lambda>ws. if el \<in> set ws then ws else ws @ [el]) (observer p)\<rparr>"

definition unobserve :: "nat \<Rightarrow> page \<Rightarrow> page" where
  "unobserve el p = p\<lparr>observer := map_option (removeAll el) (observer p)\<rparr>"

text \<open>
  The three reveal statements of the callback, on the styles. On elements of the
  document they cannot throw; the callback below takes the statements as a parameter
  \<open>rv\<close>, which returns the styles it reached and what it threw, if it did.
\<close>

definition reveal :: "nat \<Rightarrow> (nat \<Rightarrow> element) \<Rightarrow> exn option \<times> (nat \<Rightarrow> element)" where
  "reveal t st =
     (None,
      st(t := (st t)\<lparr>opacity := ''1'', transform := ''translateY(0)'',
                     classList := (if ''animated'' \<in> set (classList (st t))
                                   then classList (st t)
                                   else classList (st t) @ [''animated''])\<rparr>))"

fun intersection_callback ::
  "(nat \<Rightarrow> (nat \<Rightarrow> element) \<Rightarrow> exn option \<times> (nat \<Rightarrow> element)) \<Rightarrow> entry list \<Rightarrow> page \<Rightarrow>
   unit completion \<times> page" where
  "intersection_callback rv [] p = (Normal (), p)"
| "intersection_callback rv (e # es) p =
     (if isIntersecting e
      then (case rv (target e) (styles p) of
              (Some x, st) \<Rightarrow>
                (Throw x, p\<lparr>styles := st, revealed := revealed p @ [target e]\<rparr>)
            | (None, st) \<Rightarrow>
                intersection_callback rv es
                  (unobserve (target e) (p\<lparr>styles := st, revealed := revealed p @ [target e]\<rparr>)))
      else intersection_callback rv es p)"

definition animatedSelector :: string where
  "animatedSelector = ''.skill-card, .project-card, .contact-card, .about-content, .info-card''"

definition prepare :: "nat \<Rightarrow> page \<Rightarrow> page" where
  "prepare el p =
     observe el
       (p\<lparr>styles := (styles p)(el := (styles p el)
            \<lparr>opacity := ''0'', transform := ''translateY(30px)'',
             transition := ''opacity 0.6s ease, transform 0.6s ease''\<rparr>)\<rparr>)"

definition initScrollAnimations ::
  "bool \<Rightarrow> (string \<Rightarrow> nat list completion) \<Rightarrow> page \<Rightarrow> unit completion \<times> page" where
  "initScrollAnimations io querySelectorAll p =
     (if \<not> io
      then (case console_warn ''Intersection Observer not supported'' None (console p) of
              (Throw e, con) \<Rightarrow> (Throw e, p\<lparr>console := con\<rparr>)
            | (Normal u, con) \<Rightarrow> (Normal (), p\<lparr>console := con\<rparr>))
      else (let p1 = p\<lparr>observer := Some []\<rparr>
            in case safeQuerySelectorAll querySelectorAll animatedSelector (console p1) of
                 (Throw e, con) \<Rightarrow> (Throw e, p1\<lparr>console := con\<rparr>)
               | (Normal els, con) \<Rightarrow> (Normal (), fold prepare els (p1\<lparr>console := con\<rparr>))))"

text \<open>
  The host notifies the observer with a batch of entries. It makes entries only for
  targets the observer watches; a page without an observer is never notified.
\<close>

definition notify ::
  "(nat \<Rightarrow> (nat \<Rightarrow> element) \<Rightarrow> exn option \<times> (nat \<Rightarrow> element)) \<Rightarrow> entry list \<Rightarrow> page \<Rightarrow> page" where
  "notify rv batch p =
     (case observer p of
        None \<Rightarrow> p
      | Some ws \<Rightarrow>
          (case intersection_callback rv (filter (\<lambda>e. target e \<in> set ws) batch) p of
             (Normal u, p') \<Rightarrow> p'
           | (Throw e, p') \<Rightarrow> p'\<lparr>errors := errors p' @ [e]\<rparr>))"

fun notify_all ::
  "(nat \<Rightarrow> (nat \<Rightarrow> element) \<Rightarrow> exn option \<times> (nat \<Rightarrow> element)) \<Rightarrow> entry list list \<Rightarrow>
   page \<Rightarrow> page" where
  "notify_all rv [] p = p"
| "notify_all rv (b # bs) p = notify_all rv bs (notify rv b p)"

section \<open>Predicates on states, and inputs for the examples\<close>

text \<open>
  A debounced function is \<open>armed\<close> for the call \<open>c\<close> when the one pending timer is the
  one that call set; \<open>single\<close> is the invariant that at most one timer is pending and
  that \<open>timeout\<close> holds its handle. A throttled function is \<open>cooling\<close> until \<open>e\<close> when
  the flag is set and the reset timer is due at \<open>e\<close>, and \<open>idle\<close> when the flag is
  clear and no timer is pending.
\<close>

definition armed :: "'a debounce_state \<Rightarrow> nat \<times> 'a \<Rightarrow> nat \<Rightarrow> bool" where
  "armed s c wait \<longleftrightarrow>
     timing s \<and> now s = fst c \<and>
     (\<exists>i. timers s = [(i, fst c + wait, snd c)] \<and> timeout s = Some i)"


definition cooling :: "('c, 'a) throttle_state \<Rightarrow> nat \<Rightarrow> bool" where
  "cooling s e \<longleftrightarrow> timing s \<and> inThrottle s \<and> (\<exists>i. timers s = [(i, e, ())])"

definition idle :: "('c, 'a) throttle_state \<Rightarrow> bool" where
  "idle s \<longleftrightarrow> timing s \<and> \<not> inThrottle s \<and> timers s = []"

text \<open>The targets whose reveal statements a batch runs, and those of a notification.\<close>

definition fired :: "entry list \<Rightarrow> nat list" where
  "fired es = map target (filter isIntersecting es)"

definition delivered :: "entry list \<Rightarrow> page \<Rightarrow> nat list" where
  "delivered b p = fired (filter (\<lambda>e. target e \<in> watched p) b)"

text \<open>
  Actions that return and actions that throw, for the debounced and for the throttled
  function; a plain element; a document that rejects every selector.
\<close>

definition ok_action :: "string \<Rightarrow> exn option" where
  "ok_action a = None"

definition failing_action :: "string \<Rightarrow> exn option" where
  "failing_action a = Some (Thrown ''boom'')"

definition ok_method ::
  "unit \<Rightarrow> string \<Rightarrow> (unit, string) throttle_state \<Rightarrow>
   unit completion \<times> (unit, string) throttle_state" where
  "ok_method c a s = (Normal (), s)"

definition failing_method ::
  "unit \<Rightarrow> string \<Rightarrow> (unit, string) throttle_state \<Rightarrow>
   unit completion \<times> (unit, string) throttle_state" where
  "failing_method c a s = (Throw (Thrown ''boom''), s)"

text \<open>
  An action that returns, but run for the arguments \<open>''outer''\<close> first calls the
  function throttled at 16 with the arguments \<open>''inner''\<close>. As the action does nothing
  when run for \<open>''inner''\<close>, that throttled function is the one made from the action
  itself (lemma \<open>nested_method_reenters\<close>).
\<close>

definition nested_method ::
  "unit \<Rightarrow> string \<Rightarrow> (unit, string) throttle_state \<Rightarrow>
   unit completion \<times> (unit, string) throttle_state" where
  "nested_method c a s =
     (if a = ''outer'' then throttled ok_method 16 c ''inner'' s else (Normal (), s))"

definition failing_reveal :: "nat \<Rightarrow> (nat \<Rightarrow> element) \<Rightarrow> exn option \<times> (nat \<Rightarrow> element)" where
  "failing_reveal t st = (Some (Thrown ''boom''), st)"

definition plain :: "nat \<Rightarrow> element" where
  "plain n = \<lparr>opacity = ''1'', transform = ''none'', transition = [], classList = []\<rparr>"

definition rejecting_query :: "string \<Rightarrow> 'r completion" where
  "rejecting_query selector = Throw (SyntaxError selector)"

text \<open>
  The scenario of the specification: a document whose cards are the elements 1 and 2,
  and the page once \<^verbatim>\<open>initScrollAnimations\<close> has run on it.
\<close>

definition two_cards :: "string \<Rightarrow> nat list completion" where
  "two_cards selector = Normal [1, 2]"

definition scenario_page :: page where
  "scenario_page = snd (initScrollAnimations True two_cards (page_init plain))"

section \<open>debounce: what a run of calls invokes\<close>

lemma timer_delay_small: "delay < 2 ^ 31 \<Longrightarrow> timer_delay delay = delay"
  by (simp add: timer_delay_def Let_def)



lemma adv_empty:
  "timers s = [] \<Longrightarrow> debounce_advance func t s = s\<lparr>now := max (now s) t\<rparr>"
  by (subst debounce_advance.simps) (simp add: next_due_def)

lemma adv_wait:
  "timers s = [(i, d, a)] \<Longrightarrow> t < d \<Longrightarrow> debounce_advance func t s = s\<lparr>now := max (now s) t\<rparr>"
  by (subst debounce_advance.simps) (simp add: next_due_def)

lemma adv_fire:
  "timers s = [(i, d, a)] \<Longrightarrow> d \<le> t \<Longrightarrow> timing s \<Longrightarrow>
   debounce_advance func t s =
     s\<lparr>now := max (max (now s) d) t, timers := [],
       invoked := invoked s @ [(max (now s) d, a)],
       uncaught := uncaught s @ (case func a of None \<Rightarrow> [] | Some e \<Rightarrow> [(max (now s) d, e)])\<rparr>"
  by (subst debounce_advance.simps)
    (simp add: next_due_def debounce_fire_def take_timer_def later_def clearTimeout_def
      report_def Let_def adv_empty split: option.splits)

lemma exec_idle:
  "timing s \<Longrightarrow> timers s = [] \<Longrightarrow>
   executedFunction wait args s =
     (Normal (), s\<lparr>next_id := Suc (next_id s), timers := [(next_id s, now s + timer_delay wait, args)],
                   timeout := Some (next_id s)\<rparr>)"
  by (simp add: executedFunction_def clearTimeout_def setTimeout_def)

lemma exec_pending:
  "timing s \<Longrightarrow> timers s = [(i, d, a)] \<Longrightarrow> timeout s = Some i \<Longrightarrow>
   executedFunction wait args s =
     (Normal (), s\<lparr>next_id := Suc (next_id s), timers := [(next_id s, now s + timer_delay wait, args)],
                   timeout := Some (next_id s)\<rparr>)"
  by (simp add: executedFunction_def clearTimeout_def setTimeout_def)

lemma call_idle:
  assumes "timing s" "timers s = []" "now s \<le> fst c"
  shows "armed (debounce_call func wait c s) c (timer_delay wait)"
    and "invoked (debounce_call func wait c s) = invoked s"
  using assms by (simp_all add: debounce_call_def adv_empty exec_idle report_def armed_def max_def)

lemma call_burst:
  assumes "armed s c (timer_delay wait)" "fst c \<le> fst c'" "fst c' < fst c + timer_delay wait"
  shows "armed (debounce_call func wait c' s) c' (timer_delay wait)"
    and "invoked (debounce_call func wait c' s) = invoked s"
proof -
  from assms(1) obtain i where t: "timing s" "now s = fst c"
    "timers s = [(i, fst c + timer_delay wait, snd c)]" "timeout s = Some i"
    by (auto simp: armed_def)
  have a: "debounce_advance func (fst c') s = s\<lparr>now := fst c'\<rparr>"
    using adv_wait [OF t(3) assms(3), of func] t(2) assms(2) by (simp add: max_def)
  show "armed (debounce_call func wait c' s) c' (timer_delay wait)"
    using t by (simp add: debounce_call_def a exec_pending report_def armed_def)
  show "invoked (debounce_call func wait c' s) = invoked s"
    using t by (simp add: debounce_call_def a exec_pending report_def armed_def)
qed

lemma call_sparse:
  assumes "armed s c (timer_delay wait)" "fst c + timer_delay wait < fst c'"
  shows "armed (debounce_call func wait c' s) c' (timer_delay wait)"
    and "invoked (debounce_call func wait c' s) = invoked s @ [(fst c + timer_delay wait, snd c)]"
proof -
  from assms(1) obtain i where t: "timing s" "now s = fst c"
    "timers s = [(i, fst c + timer_delay wait, snd c)]" "timeout s = Some i"
    by (auto simp: armed_def)
  have le: "fst c + timer_delay wait \<le> fst c'" using assms(2) by simp
  note a = adv_fire [OF t(3) le t(1), of func]
  show "armed (debounce_call func wait c' s) c' (timer_delay wait)"
    using t le by (simp add: debounce_call_def a exec_idle report_def armed_def max_def)
  show "invoked (debounce_call func wait c' s) = invoked s @ [(fst c + timer_delay wait, snd c)]"
    using t le by (simp add: debounce_call_def a exec_idle report_def armed_def max_def)
qed

lemma run_burst:
  "armed s c (timer_delay wait) \<Longrightarrow> burst (timer_delay wait) (c # cs) \<Longrightarrow>
   armed (debounce_run func wait cs s) (last (c # cs)) (timer_delay wait) \<and>
   invoked (debounce_run func wait cs s) = invoked s"
proof (induction cs arbitrary: s c)
  case Nil
  then show ?case by simp
next
  case (Cons c' cs)
  from Cons.prems have b: "fst c \<le> fst c'" "fst c' < fst c + timer_delay wait"
    "burst (timer_delay wait) (c' # cs)"
    by simp_all
  note st = call_burst [OF Cons.prems(1) b(1) b(2), of func]
  from Cons.IH [OF st(1) b(3)] st(2) show ?case by simp
qed

lemma run_sparse:
  "armed s c (timer_delay wait) \<Longrightarrow> sparse (timer_delay wait) (c # cs) \<Longrightarrow>
   armed (debounce_run func wait cs s) (last (c # cs)) (timer_delay wait) \<and>
   invoked (debounce_run func wait cs s) =
     invoked s @ map (\<lambda>c. (fst c + timer_delay wait, snd c)) (butlast (c # cs))"
proof (induction cs arbitrary: s c)
  case Nil
  then show ?case by simp
next
  case (Cons c' cs)
  from Cons.prems have b: "fst c + timer_delay wait < fst c'" "sparse (timer_delay wait) (c' # cs)"
    by simp_all
  note st = call_sparse [OF Cons.prems(1) b(1), of func]
  from Cons.IH [OF st(1) b(2)] st(2) show ?case by simp
qed

lemma armed_observe:
  assumes "armed s c wait"
  shows "invoked (debounce_advance func T s) =
           invoked s @ (if fst c + wait \<le> T then [(fst c + wait, snd c)] else [])"
proof -
  from assms obtain i where t: "timing s" "now s = fst c"
    "timers s = [(i, fst c + wait, snd c)]" "timeout s = Some i"
    by (auto simp: armed_def)
  show ?thesis
  proof (cases "fst c + wait \<le> T")
    case True
    then show ?thesis using adv_fire [OF t(3) True t(1), of func] t(2) by (simp add: max_def)
  next
    case False
    then have "T < fst c + wait" by simp
    from adv_wait [OF t(3) this, of func] False show ?thesis by simp
  qed
qed

lemma first_call:
  fixes c :: "nat \<times> 'a"
  shows "armed (debounce_call func wait c (debounce_init True)) c (timer_delay wait)"
    and "invoked (debounce_call func wait c (debounce_init True)) = []"
proof -
  let ?i = "debounce_init True :: 'a debounce_state"
  have i: "timing ?i" "timers ?i = []" "now ?i \<le> fst c" "invoked ?i = []"
    by (simp_all add: debounce_init_def)
  from call_idle [OF i(1) i(2) i(3), of func wait] i(4)
  show "armed (debounce_call func wait c (debounce_init True)) c (timer_delay wait)"
    and "invoked (debounce_call func wait c (debounce_init True)) = []"
    by simp_all
qed

text \<open>
  C1, as the code has it. A new debounced function with a \<open>wait\<close> below \<open>2^31\<close> is
  called at the times and with the arguments of \<open>cs\<close>, each call less than \<open>wait\<close>
  after the one before it. Whenever the log of \<open>func\<close> is read afterwards, at a time
  \<open>T\<close>, it is empty before the last call's time plus \<open>wait\<close>, and from then on it
  holds exactly one invocation, made at that time with the last call's arguments.
\<close>

theorem debounce_burst_fires_once:
  assumes "cs \<noteq> []" and "burst wait cs" and "wait < 2 ^ 31"
  shows "invoked (debounce_advance func T (debounce_run func wait cs (debounce_init True))) =
           (if fst (last cs) + wait \<le> T then [(fst (last cs) + wait, snd (last cs))] else [])"
proof -
  from assms(1) obtain c cs' where cs: "cs = c # cs'" by (cases cs) auto
  let ?s = "debounce_call func wait c (debounce_init True)"
  note d = timer_delay_small [OF assms(3)]
  note st = first_call [of func wait c]
  from run_burst [OF st(1), of cs' func] assms(2) cs
  have r: "armed (debounce_run func wait cs' ?s) (last cs) wait"
    "invoked (debounce_run func wait cs' ?s) = []"
    using st(2) by (simp_all add: d)
  from armed_observe [OF r(1), of func T] r(2) show ?thesis by (simp add: cs)
qed

theorem debounce_burst_fires_once_witness:
  "[(0::nat, ''a''), (30, ''b''), (60, ''c'')] \<noteq> [] \<and>
   burst 100 [(0::nat, ''a''), (30, ''b''), (60, ''c'')] \<and>
   (100::nat) < 2 ^ 31 \<and>
   invoked (debounce_advance ok_action 160
     (debounce_run ok_action 100 [(0, ''a''), (30, ''b''), (60, ''c'')] (debounce_init True)))
     = [(160, ''c'')] \<and>
   invoked (debounce_advance ok_action 159
     (debounce_run ok_action 100 [(0, ''a''), (30, ''b''), (60, ''c'')] (debounce_init True)))
     = []"
  using debounce_burst_fires_once
    [where cs = "[(0::nat, ''a''), (30, ''b''), (60, ''c'')]" and wait = 100
       and func = ok_action and T = 160]
    debounce_burst_fires_once
    [where cs = "[(0::nat, ''a''), (30, ''b''), (60, ''c'')]" and wait = 100
       and func = ok_action and T = 159]
  by simp

text \<open>
  C1 as stated fails for a \<open>wait\<close> that the host's timer cannot hold: with \<open>wait\<close> at
  \<open>2^31\<close> every timer is due at once, so each call of the burst at 0, 30 and 60 finds
  the timer of the call before it fired, and \<open>func\<close> is invoked for all three.
\<close>

theorem debounce_burst_fires_once_counterexample:
  "burst 2147483648 [(0::nat, ''a''), (30, ''b''), (60, ''c'')] \<and>
   invoked (debounce_advance ok_action 1000
     (debounce_run ok_action 2147483648 [(0, ''a''), (30, ''b''), (60, ''c'')]
        (debounce_init True)))
     = [(0, ''a''), (30, ''b''), (60, ''c'')]"
proof -
  have d: "timer_delay 2147483648 = 0" by (simp add: timer_delay_def)
  have s: "sparse 0 [(0::nat, ''a''), (30, ''b''), (60, ''c'')]" by simp
  let ?s = "debounce_call ok_action 2147483648 (0::nat, ''a'') (debounce_init True)"
  note st = first_call [of ok_action 2147483648 "(0::nat, ''a'')"]
  from run_sparse [OF st(1), of "[(30, ''b''), (60, ''c'')]" ok_action] s d st(2)
  have r: "armed (debounce_run ok_action 2147483648 [(30, ''b''), (60, ''c'')] ?s) (60, ''c'') 0"
    "invoked (debounce_run ok_action 2147483648 [(30, ''b''), (60, ''c'')] ?s) =
       [(0, ''a''), (30, ''b'')]"
    by simp_all
  from armed_observe [OF r(1), of ok_action 1000] r(2) show ?thesis by simp
qed



subsection \<open>At most one pending timer\<close>









section \<open>throttle: what a run of calls applies\<close>

lemma tadv_empty:
  "timers s = [] \<Longrightarrow> throttle_advance t s = s\<lparr>now := max (now s) t\<rparr>"
  by (subst throttle_advance.simps) (simp add: next_due_def)

lemma tadv_wait:
  "timers s = [(i, d, u)] \<Longrightarrow> t < d \<Longrightarrow> throttle_advance t s = s\<lparr>now := max (now s) t\<rparr>"
  by (subst throttle_advance.simps) (simp add: next_due_def)

lemma tadv_fire:
  "timers s = [(i, d, u)] \<Longrightarrow> d \<le> t \<Longrightarrow>
   throttle_advance t s = s\<lparr>now := max (max (now s) d) t, timers := [], inThrottle := False\<rparr>"
  by (subst throttle_advance.simps)
    (simp add: next_due_def throttle_fire_def take_timer_def tadv_empty)

lemma applied_advance: "applied (throttle_advance T s) = applied s"
proof (induction T s rule: throttle_advance.induct)
  case (1 t s)
  show ?case
  proof (cases "next_due t (timers s)")
    case None
    then show ?thesis by (subst throttle_advance.simps) simp
  next
    case (Some tm)
    have "applied (throttle_fire tm s) = applied s"
      by (cases tm) (simp add: throttle_fire_def take_timer_def)
    with "1.IH" [OF Some] Some show ?thesis by (subst throttle_advance.simps) simp
  qed
qed

subsection \<open>The arrival of a call\<close>

lemma arrive_idle: "idle s \<Longrightarrow> throttle_arrive b t s = s\<lparr>now := max (now s) t\<rparr>"
  by (cases t) (simp_all add: idle_def throttle_arrive_def tadv_empty Let_def max_def)

lemma arrive_cooling:
  assumes "cooling s e" and "t < e \<or> (t = e \<and> \<not> b)"
  shows "throttle_arrive b t s = s\<lparr>now := max (now s) t\<rparr>"
proof -
  from assms(1) obtain i where tm: "timers s = [(i, e, ())]" by (auto simp: cooling_def)
  show ?thesis
  proof (cases b)
    case True
    with assms(2) have "t < e" by simp
    from tadv_wait [OF tm this] True show ?thesis by (simp add: throttle_arrive_def)
  next
    case False
    show ?thesis
    proof (cases t)
      case 0
      with False show ?thesis by (simp add: throttle_arrive_def)
    next
      case (Suc t')
      with assms(2) have "t' < e" by auto
      from tadv_wait [OF tm this] False Suc show ?thesis
        by (simp add: throttle_arrive_def Let_def max_def)
    qed
  qed
qed


subsection \<open>A call that finds the flag clear, and a call during the cooldown\<close>

lemma tapply:
  assumes "idle s" and "\<And>s. func ctx a s = (Normal (), s)"
  shows "cooling (report (throttled func limit ctx a s)) (now s + timer_delay limit)"
    and "applied (report (throttled func limit ctx a s)) = applied s @ [(now s, ctx, a)]"
    and "now (report (throttled func limit ctx a s)) = now s"
  using assms(1)
  by (simp_all add: idle_def cooling_def throttled_def assms(2) setTimeout_def report_def)


lemma tcall_idle:
  assumes "idle s" and "now s \<le> t" and "\<And>s. func ctx a s = (Normal (), s)"
  shows "cooling (throttle_call func limit (b, t, ctx, a) s) (t + timer_delay limit)"
    and "applied (throttle_call func limit (b, t, ctx, a) s) = applied s @ [(t, ctx, a)]"
    and "now (throttle_call func limit (b, t, ctx, a) s) = t"
proof -
  let ?s = "s\<lparr>now := max (now s) t\<rparr>"
  have i: "idle ?s" "now ?s = t" "applied ?s = applied s"
    using assms(1,2) by (simp_all add: idle_def max_def)
  note ap = tapply [of ?s func ctx a limit, OF i(1) assms(3)]
  show "cooling (throttle_call func limit (b, t, ctx, a) s) (t + timer_delay limit)"
    using ap(1) i(2) by (simp add: throttle_call_def arrive_idle [OF assms(1)])
  show "applied (throttle_call func limit (b, t, ctx, a) s) = applied s @ [(t, ctx, a)]"
    using ap(2) i(2,3) by (simp add: throttle_call_def arrive_idle [OF assms(1)])
  show "now (throttle_call func limit (b, t, ctx, a) s) = t"
    using ap(3) i(2) by (simp add: throttle_call_def arrive_idle [OF assms(1)])
qed


lemma tcall_drop:
  assumes "cooling s e" and "t < e \<or> (t = e \<and> \<not> b)"
  shows "cooling (throttle_call func limit (b, t, ctx, a) s) e"
    and "applied (throttle_call func limit (b, t, ctx, a) s) = applied s"
    and "now (throttle_call func limit (b, t, ctx, a) s) = max (now s) t"
proof -
  from assms(1) have c: "timing s" "inThrottle s" "\<exists>i. timers s = [(i, e, ())]"
    by (auto simp: cooling_def)
  note ar = arrive_cooling [OF assms]
  show "cooling (throttle_call func limit (b, t, ctx, a) s) e"
    using c by (simp add: throttle_call_def ar throttled_def report_def cooling_def)
  show "applied (throttle_call func limit (b, t, ctx, a) s) = applied s"
    using c by (simp add: throttle_call_def ar throttled_def report_def)
  show "now (throttle_call func limit (b, t, ctx, a) s) = max (now s) t"
    using c by (simp add: throttle_call_def ar throttled_def report_def)
qed




lemma trun_drop:
  "cooling s e \<Longrightarrow> \<forall>ev \<in> set evs. fst (snd ev) < e \<Longrightarrow>
   cooling (throttle_run func limit evs s) e \<and>
   applied (throttle_run func limit evs s) = applied s"
proof (induction evs arbitrary: s)
  case Nil
  then show ?case by simp
next
  case (Cons ev evs)
  obtain b t ctx a where ev: "ev = (b, t, ctx, a)" by (cases ev)
  from Cons.prems ev have lt: "t < e \<or> (t = e \<and> \<not> b)"
    and rest: "\<forall>ev \<in> set evs. fst (snd ev) < e" by simp_all
  note st = tcall_drop [OF Cons.prems(1) lt, of func limit ctx a]
  from Cons.IH [OF st(1) rest] st(2) show ?case by (simp add: ev)
qed

lemma idle_init: "idle (throttle_init True)"
  by (simp add: idle_def throttle_init_def)


lemma nested_method_reenters:
  "nested_method c ''outer'' s = throttled nested_method 16 c ''inner'' s"
  by (simp add: nested_method_def throttled_def ok_method_def)

text \<open>
  C2, as the code has it. The \<open>limit\<close> is below \<open>2^31\<close>, and the action, run for the
  receiver and the arguments of the first call \<open>c\<close> of a new throttled function,
  returns (does not throw) and leaves the state as it found it (does not call the
  throttled function itself). Then the first call applies \<open>func\<close> during the call
  itself, and of the calls that follow within the window of \<open>limit\<close> after \<open>c\<close> none
  applies \<open>func\<close>, whichever the host runs first at the time a timer is due: whenever
  the log is read afterwards, at any time \<open>T\<close>, it holds the first call's application
  alone, at the first call's time.
\<close>

theorem throttle_window_once:
  fixes func :: "'c \<Rightarrow> 'a \<Rightarrow> ('c, 'a) throttle_state \<Rightarrow> unit completion \<times> ('c, 'a) throttle_state"
  assumes "\<forall>s. func (fst (snd c)) (snd (snd c)) s = (Normal (), s)"
    and "limit < 2 ^ 31"
    and "\<forall>ev \<in> set evs. fst c \<le> fst (snd ev) \<and> fst (snd ev) < fst c + limit"
  shows "applied (throttle_call func limit (b, c) (throttle_init True)) = [c] \<and>
         applied (throttle_advance T
           (throttle_run func limit ((b, c) # evs) (throttle_init True))) = [c]"
proof -
  obtain t ctx a where c: "c = (t, ctx, a)" by (cases c)
  let ?i = "throttle_init True :: ('c, 'a) throttle_state"
  have n: "now ?i \<le> t" "applied ?i = []" by (simp_all add: throttle_init_def)
  have q: "\<And>s. func ctx a s = (Normal (), s)" using assms(1) c by simp
  note st = tcall_idle [where func = func and ctx = ctx and a = a and limit = limit and b = b,
      OF idle_init n(1) q]
  have d: "timer_delay limit = limit" using assms(2) by (rule timer_delay_small)
  from assms(3) c have "\<forall>ev \<in> set evs. fst (snd ev) < t + timer_delay limit" by (simp add: d)
  from trun_drop [OF st(1) this, of func limit]
  have r: "applied (throttle_run func limit ((b, c) # evs) ?i) = [c]"
    using st(2) n(2) by (simp add: c)
  from r st(2) n(2) show ?thesis by (simp add: applied_advance c)
qed

theorem throttle_window_once_witness:
  "ok_method (fst (snd (0::nat, (), ''a''))) (snd (snd (0::nat, (), ''a'')))
     (throttle_init True) = (Normal (), throttle_init True) \<and>
   (16::nat) < 2 ^ 31 \<and>
   list_all (\<lambda>ev. fst (0::nat, (), ''a'') \<le> fst (snd ev) \<and>
                  fst (snd ev) < fst (0::nat, (), ''a'') + 16)
     [(True, 5::nat, (), ''b''), (False, 10, (), ''c'')] \<and>
   applied (throttle_advance 1000
     (throttle_run ok_method 16
        [(True, 0, (), ''a''), (True, 5, (), ''b''), (False, 10, (), ''c'')]
        (throttle_init True))) = [(0, (), ''a'')]"
  using throttle_window_once
    [where func = ok_method and c = "(0, (), ''a'')" and limit = 16 and T = 1000 and b = True
       and evs = "[(True, 5::nat, (), ''b''), (False, 10, (), ''c'')]"]
  by (simp add: ok_method_def)

text \<open>
  C2 as stated fails in three ways. The flag is set only after \<^verbatim>\<open>func.apply\<close> has
  returned, so an action that throws at 0 runs again at 5, within a window of 16, and
  an action that calls the throttled function while it runs at 0 is applied for that
  call too. And with a limit of \<open>2^31\<close> the reset timer is due at once, so the call at
  5 is applied.
\<close>

theorem throttle_window_once_counterexample:
  "applied (throttle_run failing_method 16
      [(True, 0, (), ''a''), (True, 5, (), ''b'')] (throttle_init True))
     = [(0, (), ''a''), (5, (), ''b'')] \<and>
   applied (throttle_run nested_method 16 [(True, 0, (), ''outer'')] (throttle_init True))
     = [(0, (), ''outer''), (0, (), ''inner'')] \<and>
   applied (throttle_run ok_method 2147483648
      [(True, 0, (), ''a''), (True, 5, (), ''b'')] (throttle_init True))
     = [(0, (), ''a''), (5, (), ''b'')]"
  by (simp add: throttle_call_def throttle_arrive_def throttled_def tadv_empty tadv_fire
      setTimeout_def timer_delay_def report_def throttle_init_def failing_method_def
      nested_method_def ok_method_def)




section \<open>The observer: reveal once\<close>

text \<open>
  With the reveal statements of the source, which do not throw, the callback runs them
  for every intersecting entry of the batch, in order, and stops watching each such
  target.
\<close>

lemma callback_reveal:
  "fst (intersection_callback reveal es p) = Normal () \<and>
   revealed (snd (intersection_callback reveal es p)) = revealed p @ fired es \<and>
   watched (snd (intersection_callback reveal es p)) = watched p - set (fired es)"
proof (induction es arbitrary: p)
  case Nil
  then show ?case by (simp add: fired_def)
next
  case (Cons e es)
  show ?case
  proof (cases "isIntersecting e")
    case True
    let ?p = "unobserve (target e)
      (p\<lparr>styles := snd (reveal (target e) (styles p)), revealed := revealed p @ [target e]\<rparr>)"
    have s: "intersection_callback reveal (e # es) p = intersection_callback reveal es ?p"
      using True by (simp add: reveal_def)
    have w: "watched ?p = watched p - {target e}" "revealed ?p = revealed p @ [target e]"
      by (auto simp: unobserve_def watched_def split: option.splits)
    from Cons.IH [of ?p] w True show ?thesis unfolding s by (auto simp: fired_def)
  next
    case False
    with Cons.IH [of p] show ?thesis by (simp add: fired_def)
  qed
qed

lemma notify_reveal:
  "revealed (notify reveal b p) = revealed p @ delivered b p \<and>
   watched (notify reveal b p) = watched p - set (delivered b p)"
proof (cases "observer p")
  case None
  then show ?thesis by (simp add: notify_def delivered_def watched_def fired_def)
next
  case (Some ws)
  let ?es = "filter (\<lambda>e. target e \<in> set ws) b"
  obtain r p' where c: "intersection_callback reveal ?es p = (r, p')"
    by (cases "intersection_callback reveal ?es p")
  from callback_reveal [of ?es p] c
  have "r = Normal ()" "revealed p' = revealed p @ fired ?es"
    "watched p' = watched p - set (fired ?es)" by simp_all
  with Some c show ?thesis by (simp add: notify_def delivered_def watched_def)
qed

lemma delivered_watched: "set (delivered b p) \<subseteq> watched p"
  by (auto simp: delivered_def fired_def)

lemma notify_unwatched:
  assumes "t \<notin> watched p"
  shows "count_list (revealed (notify reveal b p)) t = count_list (revealed p) t"
    and "t \<notin> watched (notify reveal b p)"
proof -
  from assms delivered_watched [of b p] have "t \<notin> set (delivered b p)" by blast
  then show "count_list (revealed (notify reveal b p)) t = count_list (revealed p) t"
    using notify_reveal [of b p] by (simp add: count_list_0_iff)
  show "t \<notin> watched (notify reveal b p)"
    using assms notify_reveal [of b p] by simp
qed

lemma notify_all_unwatched:
  "t \<notin> watched p \<Longrightarrow>
   count_list (revealed (notify_all reveal bs p)) t = count_list (revealed p) t \<and>
   t \<notin> watched (notify_all reveal bs p)"
proof (induction bs arbitrary: p)
  case Nil
  then show ?case by simp
next
  case (Cons b bs)
  note st = notify_unwatched [OF Cons.prems, of b]
  from Cons.IH [OF st(2)] st(1) show ?case by simp
qed

lemma count_delivered:
  "count_list (delivered b p) t =
     (if t \<in> watched p then length (filter (\<lambda>e. target e = t \<and> isIntersecting e) b) else 0)"
  by (induction b) (auto simp: delivered_def fired_def)

text \<open>
  C3, as the code has it. The host notifies the observer of \<^verbatim>\<open>initScrollAnimations\<close>,
  in any state \<open>p\<close> of the page, with a batch \<open>b\<close>, and during it the reveal statements
  run for the element \<open>t\<close> (the reveals logged for \<open>t\<close> change). Then \<open>t\<close> is no longer
  watched afterwards. Whatever batches \<open>bs\<close> the host delivers later, whether their
  entries say that \<open>t\<close> intersects or not, the reveal statements do not run for \<open>t\<close>
  again and \<open>t\<close> is not watched again. During \<open>b\<close> itself the statements ran once for
  each entry of the batch that says that \<open>t\<close> intersects.
\<close>

theorem reveal_fires_once:
  assumes "count_list (revealed (notify reveal b p)) t \<noteq> count_list (revealed p) t"
  shows "t \<notin> watched (notify reveal b p) \<and>
         count_list (revealed (notify_all reveal bs (notify reveal b p))) t =
           count_list (revealed (notify reveal b p)) t \<and>
         t \<notin> watched (notify_all reveal bs (notify reveal b p)) \<and>
         count_list (revealed (notify reveal b p)) t =
           count_list (revealed p) t +
           length (filter (\<lambda>e. target e = t \<and> isIntersecting e) b)"
proof -
  note n = notify_reveal [of b p]
  from assms n have c: "count_list (delivered b p) t \<noteq> 0" by simp
  then have m: "t \<in> set (delivered b p)" by (simp add: count_list_0_iff)
  with n have u: "t \<notin> watched (notify reveal b p)" by simp
  from m delivered_watched [of b p] have w: "t \<in> watched p" by blast
  have d: "count_list (revealed (notify reveal b p)) t =
      count_list (revealed p) t + length (filter (\<lambda>e. target e = t \<and> isIntersecting e) b)"
    using n w by (simp add: count_delivered)
  from u notify_all_unwatched [OF u, of bs] d show ?thesis by blast
qed

lemma scenario_page_eq:
  "observer scenario_page = Some [1, 2] \<and> revealed scenario_page = [] \<and>
   errors scenario_page = []"
  by (simp add: scenario_page_def initScrollAnimations_def safeQuerySelectorAll_def
      try_catch_def two_cards_def page_init_def prepare_def observe_def Let_def)

theorem reveal_fires_once_witness:
  "count_list (revealed (notify reveal [\<lparr>target = 1, isIntersecting = True\<rparr>] scenario_page)) 1
     \<noteq> count_list (revealed scenario_page) 1 \<and>
   count_list (revealed (notify reveal [\<lparr>target = 1, isIntersecting = True\<rparr>] scenario_page)) 1
     = 1 \<and>
   1 \<notin> watched (notify reveal [\<lparr>target = 1, isIntersecting = True\<rparr>] scenario_page) \<and>
   count_list (revealed (notify_all reveal
       [[\<lparr>target = 1, isIntersecting = False\<rparr>],
        [\<lparr>target = 1, isIntersecting = True\<rparr>, \<lparr>target = 2, isIntersecting = False\<rparr>]]
       (notify reveal [\<lparr>target = 1, isIntersecting = True\<rparr>] scenario_page))) 1
     = 1"
proof -
  have h: "count_list (revealed (notify reveal [\<lparr>target = 1, isIntersecting = True\<rparr>]
      scenario_page)) 1 \<noteq> count_list (revealed scenario_page) 1"
    using scenario_page_eq by (simp add: notify_def reveal_def unobserve_def)
  from reveal_fires_once [OF h,
      of "[[\<lparr>target = 1, isIntersecting = False\<rparr>],
           [\<lparr>target = 1, isIntersecting = True\<rparr>, \<lparr>target = 2, isIntersecting = False\<rparr>]]"]
    h scenario_page_eq
  show ?thesis by simp
qed

text \<open>
  C3 as stated fails within one notification: the callback has no test for a target
  that it has revealed already. A batch that reports the element 1 as intersecting,
  as not intersecting and as intersecting again runs the reveal statements twice for
  it, the second time after it was unobserved.
\<close>

theorem reveal_fires_once_counterexample:
  "revealed (notify reveal
      [\<lparr>target = 1, isIntersecting = True\<rparr>, \<lparr>target = 1, isIntersecting = False\<rparr>,
       \<lparr>target = 1, isIntersecting = True\<rparr>] scenario_page) = [1, 1]"
  using scenario_page_eq by (simp add: notify_def reveal_def unobserve_def)

lemma notify_all_no_observer: "observer p = None \<Longrightarrow> notify_all rv bs p = p"
  by (induction bs) (simp_all add: notify_def)

text \<open>
  C6. When the host has no \<^verbatim>\<open>IntersectionObserver\<close>, \<^verbatim>\<open>initScrollAnimations\<close> returns
  normally on every page and changes only the console, to which it adds a warning.
  Started on a new page, it leaves no element watched, and whatever batches the host
  would deliver and whatever the reveal statements are, no reveal ever runs, no style
  changes and no error reaches the host.
\<close>

theorem no_observer_noop:
  "initScrollAnimations False querySelectorAll p =
     (Normal (), p\<lparr>console := console p @ [Warn ''Intersection Observer not supported'' None]\<rparr>) \<and>
   watched (snd (initScrollAnimations False querySelectorAll (page_init st))) = {} \<and>
   revealed (notify_all rv bs (snd (initScrollAnimations False querySelectorAll (page_init st)))) = [] \<and>
   styles (notify_all rv bs (snd (initScrollAnimations False querySelectorAll (page_init st)))) = st \<and>
   errors (notify_all rv bs (snd (initScrollAnimations False querySelectorAll (page_init st)))) = []"
proof -
  let ?p = "snd (initScrollAnimations False querySelectorAll (page_init st))"
  have o: "observer ?p = None"
    by (simp add: initScrollAnimations_def console_warn_def page_init_def)
  from notify_all_no_observer [OF o, of rv bs] show ?thesis
    by (simp add: initScrollAnimations_def console_warn_def page_init_def watched_def)
qed

section \<open>A host without timers\<close>

lemma untimed_call:
  assumes "\<not> timing s" "timers s = []"
  shows "\<not> timing (debounce_call func wait c s)"
    and "timers (debounce_call func wait c s) = []"
    and "invoked (debounce_call func wait c s) = invoked s"
    and "map snd (uncaught (debounce_call func wait c s)) =
           map snd (uncaught s) @ [ReferenceError ''clearTimeout'']"
  using assms
  by (simp_all add: debounce_call_def adv_empty executedFunction_def clearTimeout_def report_def)

lemma untimed_run:
  "\<not> timing s \<Longrightarrow> timers s = [] \<Longrightarrow>
   timers (debounce_run func wait cs s) = [] \<and>
   invoked (debounce_run func wait cs s) = invoked s \<and>
   map snd (uncaught (debounce_run func wait cs s)) =
     map snd (uncaught s) @ replicate (length cs) (ReferenceError ''clearTimeout'')"
proof (induction cs arbitrary: s)
  case Nil
  then show ?case by simp
next
  case (Cons c cs)
  note st = untimed_call [OF Cons.prems, of func wait c]
  from Cons.IH [OF st(1) st(2)] st(3) st(4) show ?case
    by (simp add: replicate_append_same)
qed

text \<open>
  C8, as the code has it. Neither function looks whether the host has timers. Without
  them a call of the debounced function throws the ReferenceError of \<^verbatim>\<open>clearTimeout\<close>
  and changes nothing: in a run of calls on such a host every call throws it and
  \<open>func\<close> is never invoked. A call of the throttled function that finds the flag clear
  applies \<open>func\<close> and, if that returns and leaves the state as it found it, throws the
  ReferenceError of \<^verbatim>\<open>setTimeout\<close>.
\<close>

theorem timing_absent_throws:
  fixes func :: "'a \<Rightarrow> exn option"
    and act :: "'c \<Rightarrow> 'b \<Rightarrow> ('c, 'b) throttle_state \<Rightarrow> unit completion \<times> ('c, 'b) throttle_state"
  shows "(\<not> timing s \<longrightarrow>
            executedFunction wait args s = (Throw (ReferenceError ''clearTimeout''), s)) \<and>
         invoked (debounce_advance func T (debounce_run func wait cs (debounce_init False))) = [] \<and>
         map snd (uncaught (debounce_run func wait cs (debounce_init False))) =
           replicate (length cs) (ReferenceError ''clearTimeout'') \<and>
         (\<not> timing s' \<and> \<not> inThrottle s' \<and>
          act ctx a (s'\<lparr>applied := applied s' @ [(now s', ctx, a)]\<rparr>) =
            (Normal (), s'\<lparr>applied := applied s' @ [(now s', ctx, a)]\<rparr>) \<longrightarrow>
            fst (throttled act limit ctx a s') = Throw (ReferenceError ''setTimeout'') \<and>
            applied (snd (throttled act limit ctx a s')) = applied s' @ [(now s', ctx, a)])"
proof -
  let ?i = "debounce_init False :: 'a debounce_state"
  have i: "\<not> timing ?i" "timers ?i = []" "invoked ?i = []" "uncaught ?i = []"
    by (simp_all add: debounce_init_def)
  note r = untimed_run [OF i(1) i(2), of func wait cs]
  have a: "\<not> timing s \<longrightarrow>
      executedFunction wait args s = (Throw (ReferenceError ''clearTimeout''), s)"
    by (simp add: executedFunction_def clearTimeout_def)
  have b: "invoked (debounce_advance func T (debounce_run func wait cs ?i)) = []"
    using r i(3) by (simp add: adv_empty)
  have c: "map snd (uncaught (debounce_run func wait cs ?i)) =
      replicate (length cs) (ReferenceError ''clearTimeout'')"
    using r i(4) by simp
  have d: "\<not> timing s' \<and> \<not> inThrottle s' \<and>
      act ctx a (s'\<lparr>applied := applied s' @ [(now s', ctx, a)]\<rparr>) =
        (Normal (), s'\<lparr>applied := applied s' @ [(now s', ctx, a)]\<rparr>) \<longrightarrow>
      fst (throttled act limit ctx a s') = Throw (ReferenceError ''setTimeout'') \<and>
      applied (snd (throttled act limit ctx a s')) = applied s' @ [(now s', ctx, a)]"
    by (simp add: throttled_def setTimeout_def Let_def)
  from a b c d show ?thesis by blast
qed

theorem timing_absent_throws_witness:
  "\<not> timing (debounce_init False :: string debounce_state) \<and>
   executedFunction 100 ''resize'' (debounce_init False) =
     (Throw (ReferenceError ''clearTimeout''), debounce_init False) \<and>
   \<not> timing (throttle_init False :: (unit, string) throttle_state) \<and>
   \<not> inThrottle (throttle_init False :: (unit, string) throttle_state) \<and>
   ok_method () ''scroll''
     ((throttle_init False)\<lparr>applied := applied (throttle_init False) @
        [(now (throttle_init False :: (unit, string) throttle_state), (), ''scroll'')]\<rparr>) =
     (Normal (), (throttle_init False)\<lparr>applied := applied (throttle_init False) @
        [(now (throttle_init False :: (unit, string) throttle_state), (), ''scroll'')]\<rparr>) \<and>
   fst (throttled ok_method 16 () ''scroll'' (throttle_init False)) =
     Throw (ReferenceError ''setTimeout'')"
  using timing_absent_throws
    [where s = "debounce_init False :: string debounce_state" and wait = 100
       and args = "''resize''" and s' = "throttle_init False :: (unit, string) throttle_state"
       and act = ok_method and ctx = "()" and a = "''scroll''" and limit = 16
       and func = ok_action and T = 0 and cs = "[]"]
  by (simp add: debounce_init_def throttle_init_def ok_method_def)

text \<open>
  C8 as stated fails: on a host without timers the first call of a debounced function
  throws.
\<close>

theorem timing_absent_counterexample:
  "fst (executedFunction 100 ''resize'' (debounce_init False)) =
     Throw (ReferenceError ''clearTimeout'')"
  by (simp add: executedFunction_def clearTimeout_def debounce_init_def)

section \<open>An action that throws\<close>

lemma callback_append:
  "intersection_callback rv es1 p = (Normal (), p1) \<Longrightarrow>
   intersection_callback rv (es1 @ es2) p = intersection_callback rv es2 p1"
  by (induction es1 arbitrary: p) (auto split: if_splits prod.splits option.splits)

text \<open>
  C9. What the action throws is what the wrapper throws. The timer callback \<open>later\<close> of
  a debounced function whose \<open>func\<close> throws \<open>e\<close> on the captured arguments throws \<open>e\<close>,
  and the host that fired the timer receives \<open>e\<close>. A call of a throttled function that
  finds the flag clear and whose \<open>func\<close> throws \<open>e\<close> throws \<open>e\<close> to its caller. The
  observer's callback, when the reveal statements throw \<open>e\<close> for an intersecting entry
  of the batch that it reaches, throws \<open>e\<close> to the host that notified it.
\<close>

theorem action_failure_propagates:
  fixes func :: "'a \<Rightarrow> exn option"
    and act :: "'c \<Rightarrow> 'b \<Rightarrow> ('c, 'b) throttle_state \<Rightarrow> unit completion \<times> ('c, 'b) throttle_state"
  shows "(timing s \<and> func args = Some e \<longrightarrow>
            fst (later func args s) = Throw e \<and>
            uncaught (debounce_fire func (i, d, args) s) = uncaught s @ [(max (now s) d, e)]) \<and>
         (\<not> inThrottle s' \<and>
          act ctx a (s'\<lparr>applied := applied s' @ [(now s', ctx, a)]\<rparr>) = (Throw e, s1) \<longrightarrow>
            fst (throttled act limit ctx a s') = Throw e \<and>
            uncaught (report (throttled act limit ctx a s')) = uncaught s1 @ [(now s1, e)]) \<and>
         (intersection_callback rv es1 p = (Normal (), p1) \<and> isIntersecting en \<and>
            rv (target en) (styles p1) = (Some e, st) \<longrightarrow>
            fst (intersection_callback rv (es1 @ en # es2) p) = Throw e)"
proof -
  have a: "timing s \<and> func args = Some e \<longrightarrow>
      fst (later func args s) = Throw e \<and>
      uncaught (debounce_fire func (i, d, args) s) = uncaught s @ [(max (now s) d, e)]"
    by (simp add: later_def clearTimeout_def debounce_fire_def take_timer_def report_def Let_def)
  have b: "\<not> inThrottle s' \<and>
      act ctx a (s'\<lparr>applied := applied s' @ [(now s', ctx, a)]\<rparr>) = (Throw e, s1) \<longrightarrow>
      fst (throttled act limit ctx a s') = Throw e \<and>
      uncaught (report (throttled act limit ctx a s')) = uncaught s1 @ [(now s1, e)]"
    by (simp add: throttled_def report_def Let_def)
  have c: "intersection_callback rv es1 p = (Normal (), p1) \<and> isIntersecting en \<and>
      rv (target en) (styles p1) = (Some e, st) \<longrightarrow>
      fst (intersection_callback rv (es1 @ en # es2) p) = Throw e"
    by (auto simp: callback_append)
  from a b c show ?thesis by blast
qed

theorem action_failure_propagates_witness:
  "timing (debounce_init True :: string debounce_state) \<and>
   failing_action ''resize'' = Some (Thrown ''boom'') \<and>
   fst (later failing_action ''resize'' (debounce_init True)) = Throw (Thrown ''boom'') \<and>
   \<not> inThrottle (throttle_init True :: (unit, string) throttle_state) \<and>
   failing_method () ''scroll''
     ((throttle_init True)\<lparr>applied := applied (throttle_init True) @
        [(now (throttle_init True :: (unit, string) throttle_state), (), ''scroll'')]\<rparr>) =
     (Throw (Thrown ''boom''), (throttle_init True)\<lparr>applied := applied (throttle_init True) @
        [(now (throttle_init True :: (unit, string) throttle_state), (), ''scroll'')]\<rparr>) \<and>
   fst (throttled failing_method 16 () ''scroll'' (throttle_init True)) = Throw (Thrown ''boom'') \<and>
   intersection_callback failing_reveal [] scenario_page = (Normal (), scenario_page) \<and>
   isIntersecting \<lparr>target = 1, isIntersecting = True\<rparr> \<and>
   failing_reveal (target \<lparr>target = 1, isIntersecting = True\<rparr>) (styles scenario_page) =
     (Some (Thrown ''boom''), styles scenario_page) \<and>
   fst (intersection_callback failing_reveal
     ([] @ \<lparr>target = 1, isIntersecting = True\<rparr> # []) scenario_page) = Throw (Thrown ''boom'')"
  using action_failure_propagates
    [where s = "debounce_init True :: string debounce_state" and func = failing_action
       and args = "''resize''" and e = "Thrown ''boom''" and i = 1 and d = 100
       and s' = "throttle_init True :: (unit, string) throttle_state"
       and act = failing_method and ctx = "()" and a = "''scroll''" and limit = 16
       and ?s1.0 = "(throttle_init True)\<lparr>applied := applied (throttle_init True) @
          [(now (throttle_init True :: (unit, string) throttle_state), (), ''scroll'')]\<rparr>"
       and rv = failing_reveal and ?es1.0 = "[]" and p = scenario_page and ?p1.0 = scenario_page
       and en = "\<lparr>target = 1, isIntersecting = True\<rparr>" and st = "styles scenario_page"
       and ?es2.0 = "[]"]
  by (simp add: debounce_init_def throttle_init_def failing_action_def failing_method_def
      failing_reveal_def)

section \<open>The safe queries\<close>

text \<open>
  C10. For every selector and whatever the document's query does with it,
  \<^verbatim>\<open>safeQuerySelector\<close> and \<^verbatim>\<open>safeQuerySelectorAll\<close> return and never throw: the
  query's result when the query returns, and \<^verbatim>\<open>null\<close>, respectively the empty
  collection, when the query throws.
\<close>

theorem safe_query_never_throws:
  "safeQuerySelector querySelector selector con =
     (case querySelector selector of
        Normal r \<Rightarrow> (Normal r, con)
      | Throw error \<Rightarrow>
          (Normal None, con @ [Warn (''Error selecting element: '' @ selector) (Some error)])) \<and>
   safeQuerySelectorAll querySelectorAll selector con =
     (case querySelectorAll selector of
        Normal r \<Rightarrow> (Normal r, con)
      | Throw error \<Rightarrow>
          (Normal [], con @ [Warn (''Error selecting elements: '' @ selector) (Some error)])) \<and>
   fst (safeQuerySelector querySelector selector con) \<noteq> Throw e \<and>
   fst (safeQuerySelectorAll querySelectorAll selector con) \<noteq> Throw e"
proof -
  have one: "safeQuerySelector querySelector selector con =
     (case querySelector selector of
        Normal r \<Rightarrow> (Normal r, con)
      | Throw error \<Rightarrow>
          (Normal None, con @ [Warn (''Error selecting element: '' @ selector) (Some error)]))"
    by (simp add: safeQuerySelector_def try_catch_def console_warn_def split: completion.splits)
  have all: "safeQuerySelectorAll querySelectorAll selector con =
     (case querySelectorAll selector of
        Normal r \<Rightarrow> (Normal r, con)
      | Throw error \<Rightarrow>
          (Normal [], con @ [Warn (''Error selecting elements: '' @ selector) (Some error)]))"
    by (simp add: safeQuerySelectorAll_def try_catch_def console_warn_def split: completion.splits)
  have "fst (safeQuerySelector querySelector selector con) \<noteq> Throw e"
    unfolding one by (cases "querySelector selector") simp_all
  moreover have "fst (safeQuerySelectorAll querySelectorAll selector con) \<noteq> Throw e"
    unfolding all by (cases "querySelectorAll selector") simp_all
  ultimately show ?thesis using one all by simp
qed

theorem safe_query_never_throws_witness:
  "fst (safeQuerySelector rejecting_query ''#'' []) = Normal None \<and>
   fst (safeQuerySelectorAll rejecting_query ''#'' []) = Normal [] \<and>
   fst (safeQuerySelectorAll two_cards ''.card'' []) = Normal [1, 2]"
  using safe_query_never_throws
    [where querySelector = rejecting_query and querySelectorAll = rejecting_query
       and selector = "''#''" and con = "[]"]
    safe_query_never_throws
    [where querySelector = rejecting_query and querySelectorAll = two_cards
       and selector = "''.card''" and con = "[]"]
  by (simp add: rejecting_query_def two_cards_def)

end
